theory Spec2Isabelle
  imports Main "HOL-Library.Word" "HOL-Library.Signed_Division"
begin

section \<open>Machine integers of the two programs\<close>

text \<open>
  Both programs are C++ for an LP64 platform: \<open>int\<close> has 32 bits, \<open>long\<close> and
  \<open>time_t\<close> have 64 bits, and the representation of every \<open>std::chrono\<close> duration used
  here is a signed 64-bit count. Values are words; \<open>sint\<close> reads a word as the signed
  number the program sees. Addition, subtraction and multiplication of words wrap around,
  where C++ leaves signed overflow undefined.
\<close>

type_synonym c_int = "32 word"
type_synonym c_long = "64 word"
type_synonym time_t = "64 word"

text \<open>
  The operators \<open>/\<close> and \<open>%\<close> of C++ on signed integers: the quotient is truncated
  towards zero and the remainder has the sign of the dividend. A zero divisor is undefined
  behaviour in C++, and nothing below is stated about one: the programs divide by the
  constants 2, 6 and 11 and by tick counts of the clock, and every statement about a
  division names a divisor that is not zero.
\<close>

definition c_div :: "'a::len word \<Rightarrow> 'a word \<Rightarrow> 'a word" where
  "c_div a b = word_of_int (sint a sdiv sint b)"

definition c_rem :: "'a::len word \<Rightarrow> 'a word \<Rightarrow> 'a word" where
  "c_rem a b = word_of_int (sint a smod sint b)"


section \<open>berkeley.cpp\<close>

text \<open>
  The inputs of \<open>main\<close> are the value \<open>master_time\<close> returned by \<open>time(0)\<close> and the
  values returned by the successive calls of \<open>rand()\<close>: \<open>rand i\<close> is the value of the
  call made in iteration \<open>i\<close> of the first loop (one call per iteration). The text written
  to \<open>cout\<close> is a rendering of the values computed here and is not modelled.
\<close>

definition NUM_SLAVES :: nat where
  "NUM_SLAVES = 6"

text \<open>The two vectors \<open>slave_times\<close> and \<open>time_differences\<close>, filled by \<open>push_back\<close>.\<close>

type_synonym vectors = "time_t list \<times> c_long list"

text \<open>Line 26: \<open>int offset = (rand() % 11) - 5\<close>.\<close>

definition slave_offset :: "c_int \<Rightarrow> c_int" where
  "slave_offset r = c_rem r 11 - 5"

text \<open>
  Lines 29 to 34 for one slave reading: the reading is appended to \<open>slave_times\<close>, the
  difference \<open>master_time - slave_time\<close> to \<open>time_differences\<close>.
\<close>

definition push_slave :: "time_t \<Rightarrow> time_t \<Rightarrow> vectors \<Rightarrow> vectors" where
  "push_slave master_time slave_time v =
     (case v of (slave_times, time_differences) \<Rightarrow>
        (slave_times @ [slave_time], time_differences @ [master_time - slave_time]))"

text \<open>
  Lines 23 to 38, the loop \<open>for (int i = 0; i < NUM_SLAVES; i++)\<close> that draws the
  slave readings. The \<open>int\<close> offset is converted to \<open>time_t\<close> (sign extension) by the
  addition of line 27.
\<close>

function generate_slaves :: "nat \<Rightarrow> nat \<Rightarrow> time_t \<Rightarrow> (nat \<Rightarrow> c_int) \<Rightarrow> vectors \<Rightarrow> vectors" where
  "generate_slaves i n master_time rand v =
     (if i < n then
        (let offset = slave_offset (rand i);
             slave_time = master_time + scast offset
         in generate_slaves (Suc i) n master_time rand (push_slave master_time slave_time v))
      else v)"
  by pat_completeness auto
termination
  by (relation "measure (\<lambda>(i, n, master_time, rand, v). n - i)") auto

text \<open>Lines 41 to 44: \<open>sum += time_differences[i]\<close> for \<open>i\<close> below \<open>NUM_SLAVES\<close>.\<close>

function sum_differences :: "nat \<Rightarrow> nat \<Rightarrow> c_long list \<Rightarrow> c_long \<Rightarrow> c_long" where
  "sum_differences i n time_differences sum_d =
     (if i < n then sum_differences (Suc i) n time_differences (sum_d + time_differences ! i)
      else sum_d)"
  by pat_completeness auto
termination
  by (relation "measure (\<lambda>(i, n, time_differences, sum_d). n - i)") auto

text \<open>Lines 60 to 66: \<open>slave_times[i] += average_difference\<close> for \<open>i\<close> below \<open>NUM_SLAVES\<close>.\<close>

function update_slaves :: "nat \<Rightarrow> nat \<Rightarrow> c_long \<Rightarrow> time_t list \<Rightarrow> time_t list" where
  "update_slaves i n average_difference slave_times =
     (if i < n then
        update_slaves (Suc i) n average_difference
          (slave_times[i := slave_times ! i + average_difference])
      else slave_times)"
  by pat_completeness auto
termination
  by (relation "measure (\<lambda>(i, n, average_difference, slave_times). n - i)") auto

text \<open>
  Everything \<open>main\<close> computes, in the order it is printed; the fields are named after
  the labels of the output.
\<close>

record berkeley_result =
  initial_slave_times :: "time_t list"
  differences :: "c_long list"
  sum_of_differences :: c_long
  average :: c_long
  synchronized_master_time :: time_t
  updated_slave_times :: "time_t list"

text \<open>
  Lines 41 to 66, with the number of slaves \<open>n\<close> in place of the constant: the sum, the
  average \<open>sum / NUM_SLAVES\<close> (the \<open>int\<close> divisor converted to \<open>long\<close>), the
  synchronized master time and the update of the slave vector. The source has no test
  and no error path here, and neither has the model. Both loops index the vectors below
  \<open>n\<close>; every caller passes vectors of exactly \<open>n\<close> elements (lemmas
  \<open>generate_slaves_length\<close> and \<open>record_slaves_length\<close>). The program runs it with
  \<open>n = 6\<close>, and the statements below take \<open>n\<close> at least 1.
\<close>

definition synchronize :: "nat \<Rightarrow> time_t \<Rightarrow> vectors \<Rightarrow> berkeley_result" where
  "synchronize n master_time v =
     (case v of (slave_times, time_differences) \<Rightarrow>
        (let sum_d = sum_differences 0 n time_differences 0;
             average_difference = c_div sum_d (of_nat n);
             synchronized_time = master_time + average_difference
         in \<lparr> initial_slave_times = slave_times,
              differences = time_differences,
              sum_of_differences = sum_d,
              average = average_difference,
              synchronized_master_time = synchronized_time,
              updated_slave_times =
                update_slaves 0 n average_difference slave_times \<rparr>))"

text \<open>The readings that lines 26 and 27 draw in a run.\<close>

definition drawn_readings :: "time_t \<Rightarrow> (nat \<Rightarrow> c_int) \<Rightarrow> time_t list" where
  "drawn_readings master_time rand =
     map (\<lambda>i. master_time + scast (slave_offset (rand i))) [0..<NUM_SLAVES]"

text \<open>The program: six slaves drawn from \<open>rand()\<close>, then the synchronization.\<close>

definition berkeley_main :: "time_t \<Rightarrow> (nat \<Rightarrow> c_int) \<Rightarrow> berkeley_result" where
  "berkeley_main master_time rand =
     synchronize NUM_SLAVES master_time
       (generate_slaves 0 NUM_SLAVES master_time rand ([], []))"

text \<open>
  The same computation for slave readings that are given instead of drawn: the readings
  are recorded as lines 29 to 34 record them, and their number takes the place of
  \<open>NUM_SLAVES\<close>. \<open>berkeley_main\<close> is this function on the readings it draws
  (lemma \<open>berkeley_main_sync\<close>).
\<close>

fun record_slaves :: "time_t \<Rightarrow> time_t list \<Rightarrow> vectors \<Rightarrow> vectors" where
  "record_slaves master_time [] v = v"
| "record_slaves master_time (slave_time # rest) v =
     record_slaves master_time rest (push_slave master_time slave_time v)"

definition berkeley_sync :: "time_t \<Rightarrow> time_t list \<Rightarrow> berkeley_result" where
  "berkeley_sync master_time readings =
     synchronize (length readings) master_time
       (record_slaves master_time readings ([], []))"


section \<open>cristian.cpp\<close>

text \<open>
  The inputs of \<open>main\<close> are the values returned by the three calls of
  \<open>system_clock::now()\<close>, each a signed 64-bit count of clock ticks since the epoch:
  \<open>now i\<close> is the value of call number \<open>i\<close>. The two calls of \<open>sleep_for\<close> only
  let time pass between the samples. The tick length of \<open>system_clock\<close> is fixed by the
  C++ library and not by the program; it is the parameter \<open>ticks_per_ms\<close>, the number
  of ticks in a millisecond (1000000 where the clock counts nanoseconds, 1000 where it
  counts microseconds, 1 for a clock that counts milliseconds).

  \<open>duration_cast<milliseconds>\<close> divides the tick count by \<open>ticks_per_ms\<close>,
  \<open>milliseconds(RTT / 2)\<close> is converted back to ticks by the addition of line 31, and
  \<open>to_time_t\<close> divides by the number of ticks in a second.
\<close>

record cristian_result =
  RTT :: c_long
  synchronized_client_time :: "64 word"
  server_time :: time_t
  client_actual :: time_t
  client_sync :: time_t

definition to_time_t :: "64 word \<Rightarrow> 64 word \<Rightarrow> time_t" where
  "to_time_t ticks_per_ms t = c_div t (1000 * ticks_per_ms)"

text \<open>Line 31, the operand \<open>RTT / 2\<close>.\<close>

definition one_way_delay :: "c_long \<Rightarrow> c_long" where
  "one_way_delay rtt = c_div rtt 2"

text \<open>Lines 28 to 36, from the three samples.\<close>

definition cristian_sync :: "64 word \<Rightarrow> 64 word \<Rightarrow> 64 word \<Rightarrow> 64 word \<Rightarrow> cristian_result" where
  "cristian_sync ticks_per_ms T0 T_server T1 =
     (let rtt = c_div (T1 - T0) ticks_per_ms;
          synchronized_time = T_server + one_way_delay rtt * ticks_per_ms
      in \<lparr> RTT = rtt,
           synchronized_client_time = synchronized_time,
           server_time = to_time_t ticks_per_ms T_server,
           client_actual = to_time_t ticks_per_ms T1,
           client_sync = to_time_t ticks_per_ms synchronized_time \<rparr>)"

text \<open>The program: lines 13, 19 and 25 take the samples.\<close>

definition cristian_main :: "64 word \<Rightarrow> (nat \<Rightarrow> 64 word) \<Rightarrow> cristian_result" where
  "cristian_main ticks_per_ms now =
     (let T0 = now 0; T_server = now 1; T1 = now 2
      in cristian_sync ticks_per_ms T0 T_server T1)"

text \<open>
  A time given in whole milliseconds, as a tick count of the clock.
\<close>

definition ms :: "64 word \<Rightarrow> int \<Rightarrow> 64 word" where
  "ms ticks_per_ms t = word_of_int t * ticks_per_ms"


section \<open>Signed reading of the machine operations\<close>

lemma sint_word_of_int_self:
  "- (2 ^ (LENGTH('a) - 1)) \<le> k \<Longrightarrow> k < 2 ^ (LENGTH('a) - 1) \<Longrightarrow>
   sint (word_of_int k :: 'a::len word) = k"
  by (simp add: sint_sbintrunc' signed_take_bit_int_eq_self)

lemma sdiv_int_pos_divisor:
  "0 < b \<Longrightarrow> (a::int) sdiv b = (if 0 \<le> a then a div b else - ((- a) div b))"
  by (simp add: signed_divide_int_def sgn_if)

lemma smod_int_nonneg:
  "0 \<le> a \<Longrightarrow> 0 < b \<Longrightarrow> (a::int) smod b = a mod b"
  by (simp add: signed_modulo_int_def sgn_if)

text \<open>
  Division by a positive divisor never leaves the range of the type, and its signed value
  is the quotient truncated towards zero.
\<close>

lemma sint_c_div:
  fixes a b :: "'a::len word"
  assumes "0 < sint b"
  shows "sint (c_div a b) =
         (if 0 \<le> sint a then sint a div sint b else - ((- sint a) div sint b))"
proof -
  let ?q = "if 0 \<le> sint a then sint a div sint b else - ((- sint a) div sint b)"
  have lo: "- (2 ^ (LENGTH('a) - 1)) \<le> sint a" and hi: "sint a < 2 ^ (LENGTH('a) - 1)"
    by (rule sint_ge, rule sint_lt)
  have q: "sint a sdiv sint b = ?q"
    using assms by (rule sdiv_int_pos_divisor)
  have "- (2 ^ (LENGTH('a) - 1)) \<le> ?q \<and> ?q < 2 ^ (LENGTH('a) - 1)"
  proof (cases "0 \<le> sint a")
    case True
    then have "0 \<le> sint a div sint b" and "sint a div sint b \<le> sint a"
      using assms
      by (simp add: pos_imp_zdiv_nonneg_iff, cases "sint a = 0")
         (simp_all add: int_div_le_self)
    with True lo hi show ?thesis by simp
  next
    case False
    then have "0 \<le> (- sint a) div sint b" and "(- sint a) div sint b \<le> - sint a"
      using assms by (simp_all add: pos_imp_zdiv_nonneg_iff int_div_le_self)
    with False lo hi show ?thesis by simp
  qed
  then have "sint (word_of_int ?q :: 'a word) = ?q"
    by (intro sint_word_of_int_self) simp_all
  then show ?thesis
    unfolding c_div_def q .
qed

lemma sint_c_rem_nonneg:
  fixes a b :: "'a::len word"
  assumes "0 \<le> sint a" and "0 < sint b"
  shows "sint (c_rem a b) = sint a mod sint b"
proof -
  have "0 \<le> sint a mod sint b" and "sint a mod sint b \<le> sint a"
    using assms by (simp_all add: zmod_le_nonneg_dividend)
  moreover have "sint a < 2 ^ (LENGTH('a) - 1)" by (rule sint_lt)
  ultimately have "sint (word_of_int (sint a mod sint b) :: 'a word) = sint a mod sint b"
    by (intro sint_word_of_int_self) simp_all
  then show ?thesis
    using assms by (simp add: c_rem_def smod_int_nonneg)
qed

lemma sint_of_nat_self:
  assumes "n < 2 ^ (LENGTH('a) - 1)"
  shows "sint (of_nat n :: 'a::len word) = int n"
proof -
  from assms have "int n < 2 ^ (LENGTH('a) - 1)"
    by (metis of_nat_less_iff of_nat_numeral of_nat_power)
  moreover have "- (2 ^ (LENGTH('a) - 1)) \<le> int n"
    by (rule order_trans [of _ 0]) simp_all
  ultimately have "sint (word_of_int (int n) :: 'a word) = int n"
    by (intro sint_word_of_int_self)
  then show ?thesis by simp
qed

lemma sint_of_nat_64:
  "n < 2 ^ 63 \<Longrightarrow> sint (of_nat n :: 64 word) = int n"
  using sint_of_nat_self [where 'a = 64, of n] by simp

lemma sint_scast_offset: "sint (scast (w :: c_int) :: 64 word) = sint w"
  by (rule sint_up_scast) (simp add: is_up)

lemma scast_offset_eq_0: "(scast (w :: c_int) :: 64 word) = 0 \<longleftrightarrow> w = 0"
  by (metis signed_eq_0_iff sint_scast_offset)

lemma sint_minus_scast_offset:
  assumes "- 5 \<le> sint (w :: c_int)" and "sint w \<le> 5"
  shows "sint (- (scast w :: 64 word)) = - sint w"
proof -
  have "signed_take_bit 63 (- sint w) = - sint w"
    using assms by (intro signed_take_bit_int_eq_self) simp_all
  then show ?thesis by (simp add: sint_word_minus sint_scast_offset)
qed

text \<open>
  The offset of line 26 for a value of \<open>rand()\<close>, which the C library takes from
  \<open>0 .. RAND_MAX\<close>.
\<close>

lemma sint_slave_offset:
  assumes "0 \<le> sint r"
  shows "sint (slave_offset r) = sint r mod 11 - 5"
proof -
  have r: "sint (c_rem r 11) = sint r mod 11"
    using assms sint_c_rem_nonneg [of r 11] by simp
  have "0 \<le> sint r mod 11" and "sint r mod 11 < 11" by simp_all
  then have "signed_take_bit 31 (sint r mod 11 - 5) = sint r mod 11 - 5"
    by (intro signed_take_bit_int_eq_self) simp_all
  then show ?thesis
    by (simp add: slave_offset_def sint_word_diff r)
qed

lemma slave_offset_range:
  assumes "0 \<le> sint r"
  shows "- 5 \<le> sint (slave_offset r) \<and> sint (slave_offset r) \<le> 5"
proof -
  have "0 \<le> sint r mod 11" and "sint r mod 11 < 11" by simp_all
  then show ?thesis by (simp add: sint_slave_offset [OF assms])
qed

text \<open>
  A \<open>long\<close> sum of small terms does not wrap: its signed value is the sum of the signed
  values of the terms.
\<close>

lemma sint_sum_list_bounded:
  fixes ds :: "c_long list"
  assumes "\<forall>d\<in>set ds. \<bar>sint d\<bar> \<le> b" and "int (length ds) * b < 2 ^ 63"
  shows "sint (sum_list ds) = (\<Sum>d\<leftarrow>ds. sint d) \<and> \<bar>\<Sum>d\<leftarrow>ds. sint d\<bar> \<le> int (length ds) * b"
  using assms
proof (induction ds)
  case Nil
  then show ?case by simp
next
  case (Cons d ds)
  have b0: "0 \<le> b" using Cons.prems(1) by fastforce
  have d: "\<bar>sint d\<bar> \<le> b" using Cons.prems(1) by simp
  have len: "int (length ds) * b \<le> int (length (d # ds)) * b"
    using b0 by (simp add: distrib_right)
  with Cons.prems(2) have "int (length ds) * b < 2 ^ 63" by linarith
  with Cons.IH Cons.prems(1)
  have ih: "sint (sum_list ds) = (\<Sum>d\<leftarrow>ds. sint d)"
    and bound: "\<bar>\<Sum>d\<leftarrow>ds. sint d\<bar> \<le> int (length ds) * b" by simp_all
  have total: "\<bar>sint d + (\<Sum>d\<leftarrow>ds. sint d)\<bar> \<le> int (length (d # ds)) * b"
    using d bound by (simp add: distrib_right)
  with Cons.prems(2) have "- (2 ^ 63) \<le> sint d + (\<Sum>d\<leftarrow>ds. sint d)"
    and "sint d + (\<Sum>d\<leftarrow>ds. sint d) < 2 ^ 63" by linarith+
  then have "signed_take_bit 63 (sint d + (\<Sum>d\<leftarrow>ds. sint d)) = sint d + (\<Sum>d\<leftarrow>ds. sint d)"
    by (intro signed_take_bit_int_eq_self) simp_all
  then have "sint (sum_list (d # ds)) = (\<Sum>d\<leftarrow>d # ds. sint d)"
    by (simp add: sint_word_add ih)
  with total show ?case by simp
qed

lemma int_mult_pos_bounds:
  fixes d p :: int
  assumes "0 < p" and "- b \<le> d * p" and "d * p < b"
  shows "- b \<le> d" and "d < b"
proof -
  show "- b \<le> d"
  proof (cases "0 \<le> d")
    case True
    then have "0 \<le> d * p" using assms(1) by simp
    with assms(3) True show ?thesis by linarith
  next
    case False
    then have "d * p \<le> d * 1" using assms(1) by (intro mult_left_mono_neg) simp_all
    with assms(2) show ?thesis by simp
  qed
  show "d < b"
  proof (cases "0 \<le> d")
    case True
    then have "d * 1 \<le> d * p" using assms(1) by (intro mult_left_mono) simp_all
    with assms(3) show ?thesis by simp
  next
    case False
    then have "d * p \<le> 0" using assms(1) by (simp add: mult_le_0_iff)
    with assms(2) False show ?thesis by linarith
  qed
qed

lemma c_div_replicated:
  fixes k :: c_long
  assumes "0 < n" and "n < 2 ^ 31"
    and "- (2 ^ 63) \<le> int n * sint k" and "int n * sint k < 2 ^ 63"
  shows "c_div (of_nat n * k) (of_nat n) = k"
proof -
  let ?n = "of_nat n :: c_long"
  from assms(2) have "n < 2 ^ 63" by (rule less_trans) simp
  then have n: "sint ?n = int n" by (rule sint_of_nat_64)
  have "signed_take_bit 63 (int n * sint k) = int n * sint k"
    using assms(3,4) by (intro signed_take_bit_int_eq_self) simp_all
  then have prod: "sint (?n * k) = int n * sint k"
    by (simp add: sint_word_mult n)
  have "0 < sint ?n" using assms(1) n by simp
  then have "sint (c_div (?n * k) ?n) =
      (if 0 \<le> sint (?n * k) then sint (?n * k) div sint ?n
       else - ((- sint (?n * k)) div sint ?n))"
    by (rule sint_c_div)
  also have "\<dots> = sint k"
  proof -
    have "(int n * (- sint k)) div int n = - sint k"
      using assms(1) by (intro nonzero_mult_div_cancel_left) simp
    then have "(- (int n * sint k)) div int n = - sint k"
      by simp
    then show ?thesis
      using assms(1) by (simp add: prod n)
  qed
  finally show ?thesis by (rule signed_word_eqI)
qed

text \<open>A whole number of milliseconds, as ticks, divided by the tick count of a millisecond.\<close>

lemma c_div_ticks:
  fixes ticks_per_ms :: "64 word"
  assumes "0 < sint ticks_per_ms"
    and "- (2 ^ 63) \<le> d * sint ticks_per_ms" and "d * sint ticks_per_ms < 2 ^ 63"
  shows "c_div (word_of_int d * ticks_per_ms) ticks_per_ms = word_of_int d"
    and "sint (word_of_int d :: 64 word) = d"
proof -
  let ?p = "sint ticks_per_ms"
  have "- (2 ^ 63) \<le> d" and "d < 2 ^ 63"
    using int_mult_pos_bounds [OF assms] by simp_all
  then show d: "sint (word_of_int d :: 64 word) = d"
    by (intro sint_word_of_int_self) simp_all
  have "signed_take_bit 63 (d * ?p) = d * ?p"
    using assms(2,3) by (intro signed_take_bit_int_eq_self) simp_all
  then have prod: "sint (word_of_int d * ticks_per_ms) = d * ?p"
    by (simp add: sint_word_mult d)
  have "sint (c_div (word_of_int d * ticks_per_ms) ticks_per_ms) =
      (if 0 \<le> sint (word_of_int d * ticks_per_ms)
       then sint (word_of_int d * ticks_per_ms) div ?p
       else - ((- sint (word_of_int d * ticks_per_ms)) div ?p))"
    using assms(1) by (rule sint_c_div)
  also have "\<dots> = d"
  proof -
    have "(- d * ?p) div ?p = - d"
      using assms(1) by (intro nonzero_mult_div_cancel_right) simp
    then have "(- (d * ?p)) div ?p = - d" by simp
    then show ?thesis using assms(1) by (simp add: prod)
  qed
  finally have "sint (c_div (word_of_int d * ticks_per_ms) ticks_per_ms) =
      sint (word_of_int d :: 64 word)"
    by (simp add: d)
  then show "c_div (word_of_int d * ticks_per_ms) ticks_per_ms = word_of_int d"
    by (rule signed_word_eqI)
qed

lemma sint_one_way_delay:
  "sint (one_way_delay rtt) =
     (if 0 \<le> sint rtt then sint rtt div 2 else - ((- sint rtt) div 2))"
  using sint_c_div [of 2 rtt] by (simp add: one_way_delay_def)

lemma one_way_delay_of_int:
  assumes "- (2 ^ 63) \<le> d" and "d < 2 ^ 63"
  shows "one_way_delay (word_of_int d) =
         word_of_int (if 0 \<le> d then d div 2 else - ((- d) div 2))"
proof (rule signed_word_eqI)
  let ?h = "if 0 \<le> d then d div 2 else - ((- d) div 2)"
  have d: "sint (word_of_int d :: 64 word) = d"
    using assms by (intro sint_word_of_int_self) simp_all
  have "- (2 ^ 63) \<le> ?h" and "?h < 2 ^ 63"
    using assms by (auto split: if_splits)
  then have "sint (word_of_int ?h :: 64 word) = ?h"
    by (intro sint_word_of_int_self) simp_all
  then show "sint (one_way_delay (word_of_int d)) = sint (word_of_int ?h :: 64 word)"
    by (simp add: sint_one_way_delay d)
qed


section \<open>The loops of berkeley.cpp\<close>

text \<open>
  The loop equations are unfolded by hand where needed; the lemmas below describe each
  loop as a whole.
\<close>

declare generate_slaves.simps [simp del]
declare sum_differences.simps [simp del]
declare update_slaves.simps [simp del]

lemma record_slaves_eq:
  "record_slaves m rs (a, b) = (a @ rs, b @ map (\<lambda>s. m - s) rs)"
  by (induction rs arbitrary: a b) (simp_all add: push_slave_def)

lemma generate_slaves_eq:
  "generate_slaves i n m rand v =
     record_slaves m (map (\<lambda>j. m + scast (slave_offset (rand j))) [i..<n]) v"
proof (induction i n m rand v rule: generate_slaves.induct)
  case (1 i n m rand v)
  show ?case
  proof (cases "i < n")
    case True
    then have "[i..<n] = i # [Suc i..<n]" by (simp add: upt_rec)
    with True "1" show ?thesis
      by (subst generate_slaves.simps) (simp add: Let_def)
  next
    case False
    then show ?thesis by (subst generate_slaves.simps) simp
  qed
qed

text \<open>Both ways of filling the vectors leave them with one element for each slave.\<close>

lemma generate_slaves_length:
  "generate_slaves 0 n m rand ([], []) = (a, b) \<Longrightarrow> length a = n \<and> length b = n"
  by (auto simp: generate_slaves_eq record_slaves_eq)

lemma record_slaves_length:
  "record_slaves m rs ([], []) = (a, b) \<Longrightarrow> length a = length rs \<and> length b = length rs"
  by (auto simp: record_slaves_eq)

lemma sum_differences_eq:
  "n \<le> length ds \<Longrightarrow> sum_differences i n ds acc = acc + sum_list (map ((!) ds) [i..<n])"
proof (induction i n ds acc rule: sum_differences.induct)
  case (1 i n ds acc)
  show ?case
  proof (cases "i < n")
    case True
    then have "[i..<n] = i # [Suc i..<n]" by (simp add: upt_rec)
    with True "1" show ?thesis
      by (subst sum_differences.simps) (simp add: add.assoc)
  next
    case False
    then show ?thesis by (subst sum_differences.simps) simp
  qed
qed

lemma sum_differences_all: "sum_differences 0 (length ds) ds 0 = sum_list ds"
  by (simp add: sum_differences_eq map_nth)

lemma length_update_slaves: "length (update_slaves i n a ts) = length ts"
proof (induction i n a ts rule: update_slaves.induct)
  case (1 i n a ts)
  show ?case
  proof (cases "i < n")
    case True
    with "1" show ?thesis by (subst update_slaves.simps) simp
  next
    case False
    then show ?thesis by (subst update_slaves.simps) simp
  qed
qed

lemma nth_update_slaves:
  "j < length ts \<Longrightarrow>
   update_slaves i n a ts ! j = (if i \<le> j \<and> j < n then ts ! j + a else ts ! j)"
proof (induction i n a ts rule: update_slaves.induct)
  case (1 i n a ts)
  show ?case
  proof (cases "i < n")
    case True
    have "update_slaves i n a ts ! j = update_slaves (Suc i) n a (ts[i := ts ! i + a]) ! j"
      using True by (subst update_slaves.simps) simp
    also have "\<dots> = (if Suc i \<le> j \<and> j < n then ts[i := ts ! i + a] ! j + a
                      else ts[i := ts ! i + a] ! j)"
      using "1.IH" [OF True] "1.prems" by simp
    also have "\<dots> = (if i \<le> j \<and> j < n then ts ! j + a else ts ! j)"
      using True "1.prems" by (cases "i = j") (auto simp: nth_list_update)
    finally show ?thesis .
  next
    case False
    then show ?thesis by (subst update_slaves.simps) auto
  qed
qed

lemma update_slaves_all: "update_slaves 0 (length ts) a ts = map (\<lambda>t. t + a) ts"
  by (rule nth_equalityI) (simp_all add: length_update_slaves nth_update_slaves)


section \<open>The result of the Berkeley computation\<close>

lemma synchronize_recorded:
  "synchronize (length readings) m (readings, map (\<lambda>s. m - s) readings) =
     \<lparr> initial_slave_times = readings,
       differences = map (\<lambda>s. m - s) readings,
       sum_of_differences = sum_list (map (\<lambda>s. m - s) readings),
       average = c_div (sum_list (map (\<lambda>s. m - s) readings)) (of_nat (length readings)),
       synchronized_master_time =
         m + c_div (sum_list (map (\<lambda>s. m - s) readings)) (of_nat (length readings)),
       updated_slave_times =
         map (\<lambda>t. t + c_div (sum_list (map (\<lambda>s. m - s) readings))
                             (of_nat (length readings))) readings \<rparr>"
proof -
  have "sum_differences 0 (length readings) (map (\<lambda>s. m - s) readings) 0 =
        sum_list (map (\<lambda>s. m - s) readings)"
    using sum_differences_all [of "map (\<lambda>s. m - s) readings"] by simp
  then show ?thesis
    by (simp add: synchronize_def Let_def update_slaves_all)
qed

lemma berkeley_sync_eq:
  "berkeley_sync m readings =
     \<lparr> initial_slave_times = readings,
       differences = map (\<lambda>s. m - s) readings,
       sum_of_differences = sum_list (map (\<lambda>s. m - s) readings),
       average = c_div (sum_list (map (\<lambda>s. m - s) readings)) (of_nat (length readings)),
       synchronized_master_time =
         m + c_div (sum_list (map (\<lambda>s. m - s) readings)) (of_nat (length readings)),
       updated_slave_times =
         map (\<lambda>t. t + c_div (sum_list (map (\<lambda>s. m - s) readings))
                             (of_nat (length readings))) readings \<rparr>"
  using synchronize_recorded [of readings m]
  by (simp add: berkeley_sync_def record_slaves_eq)

text \<open>A run of the program is the computation on the six readings it draws.\<close>

lemma berkeley_main_sync: "berkeley_main m rand = berkeley_sync m (drawn_readings m rand)"
  by (simp add: berkeley_main_def berkeley_sync_def generate_slaves_eq drawn_readings_def)

lemma length_drawn_readings: "length (drawn_readings m rand) = 6"
  by (simp add: drawn_readings_def NUM_SLAVES_def)

lemma nth_drawn_readings:
  "i < 6 \<Longrightarrow> drawn_readings m rand ! i = m + scast (slave_offset (rand i))"
  by (simp add: drawn_readings_def NUM_SLAVES_def)

lemma upt_6: "[0..<6] = [0, 1, 2, 3, 4, 5 :: nat]"
  by (simp add: upt_rec)

lemma drawn_readings_unfold:
  "drawn_readings m rand =
     [m + scast (slave_offset (rand 0)), m + scast (slave_offset (rand 1)),
      m + scast (slave_offset (rand 2)), m + scast (slave_offset (rand 3)),
      m + scast (slave_offset (rand 4)), m + scast (slave_offset (rand 5))]"
  by (simp add: drawn_readings_def NUM_SLAVES_def upt_6)


section \<open>The result of the Cristian computation\<close>

lemma ms_diff: "ms p a - ms p b = word_of_int (a - b) * p"
  by (simp add: ms_def algebra_simps)

lemma ms_add: "ms p a + word_of_int b * p = ms p (a + b)"
  by (simp add: ms_def algebra_simps)

text \<open>The computation on whole milliseconds, whatever their order.\<close>

lemma cristian_sync_ms:
  assumes "0 < sint ticks_per_ms"
    and "- (2 ^ 63) \<le> (t1 - t0) * sint ticks_per_ms"
    and "(t1 - t0) * sint ticks_per_ms < 2 ^ 63"
  shows "RTT (cristian_sync ticks_per_ms (ms ticks_per_ms t0) T_server (ms ticks_per_ms t1)) =
           word_of_int (t1 - t0)"
    and "sint (RTT (cristian_sync ticks_per_ms (ms ticks_per_ms t0) T_server
           (ms ticks_per_ms t1))) = t1 - t0"
    and "synchronized_client_time
           (cristian_sync ticks_per_ms (ms ticks_per_ms t0) T_server (ms ticks_per_ms t1)) =
         T_server + one_way_delay (word_of_int (t1 - t0)) * ticks_per_ms"
  using c_div_ticks [OF assms]
  by (simp_all add: cristian_sync_def Let_def ms_diff)


section \<open>Properties of the Berkeley computation\<close>

text \<open>
  C1. For every reference reading and every non-empty list of participant readings (their
  number \<open>N\<close> an \<open>int\<close>, as \<open>NUM_SLAVES\<close> is), the computation returns a result in
  which the offset of each participant is the reference minus its reading, the sum is the
  \<open>long\<close> sum of the offsets, the average is that sum divided by \<open>N\<close> with the
  quotient truncated towards zero, the corrected reference is the reference plus the
  average, and the corrected participants are the readings plus the average, in the order
  of the input. Where the offsets are small enough for \<open>N\<close> of them not to overflow, the
  signed value of the sum is the sum of the signed offsets. A run of the program is this
  computation on the six readings it draws.
\<close>

theorem berkeley_sync_computes:
  assumes "readings \<noteq> []" and "length readings < 2 ^ 31"
  shows "let r = berkeley_sync master_time readings
     in initial_slave_times r = readings
     \<and> differences r = map (\<lambda>p. master_time - p) readings
     \<and> sum_of_differences r = sum_list (differences r)
     \<and> average r = c_div (sum_of_differences r) (of_nat (length readings))
     \<and> sint (average r) =
         (if 0 \<le> sint (sum_of_differences r)
          then sint (sum_of_differences r) div int (length readings)
          else - ((- sint (sum_of_differences r)) div int (length readings)))
     \<and> synchronized_master_time r = master_time + average r
     \<and> updated_slave_times r = map (\<lambda>p. p + average r) readings
     \<and> ((\<forall>d\<in>set (differences r). \<bar>sint d\<bar> \<le> b) \<and> int (length readings) * b < 2 ^ 63
          \<longrightarrow> sint (sum_of_differences r) = (\<Sum>d\<leftarrow>differences r. sint d))
     \<and> berkeley_main master_time rand =
         berkeley_sync master_time (drawn_readings master_time rand)"
proof -
  let ?n = "of_nat (length readings) :: c_long"
  let ?ds = "map (\<lambda>p. master_time - p) readings"
  have exact: "sint (sum_list ?ds) = (\<Sum>d\<leftarrow>?ds. sint d)"
    if "\<forall>d\<in>set ?ds. \<bar>sint d\<bar> \<le> b" and "int (length readings) * b < 2 ^ 63"
    using sint_sum_list_bounded [of ?ds b] that by simp
  from assms(2) have "length readings < 2 ^ 63"
    by (rule less_trans) simp
  then have n: "sint ?n = int (length readings)"
    by (rule sint_of_nat_64)
  with assms(1) have "0 < sint ?n" by simp
  then have "sint (c_div (sum_list (map (\<lambda>p. master_time - p) readings)) ?n) =
      (if 0 \<le> sint (sum_list (map (\<lambda>p. master_time - p) readings))
       then sint (sum_list (map (\<lambda>p. master_time - p) readings)) div sint ?n
       else - ((- sint (sum_list (map (\<lambda>p. master_time - p) readings))) div sint ?n))"
    by (rule sint_c_div)
  with exact show ?thesis
    unfolding n by (simp add: berkeley_sync_eq berkeley_main_sync Let_def)
qed

text \<open>
  Six readings whose offsets sum to \<open>-7\<close>: the average is \<open>-1\<close>, where rounding down
  would give \<open>-2\<close>.
\<close>

theorem berkeley_sync_computes_witness:
  "[101, 101, 101, 101, 101, 102 :: time_t] \<noteq> []
   \<and> length [101, 101, 101, 101, 101, 102 :: time_t] < 2 ^ 31
   \<and> (let r = berkeley_sync 100 [101, 101, 101, 101, 101, 102]
       in differences r = [- 1, - 1, - 1, - 1, - 1, - 2]
        \<and> sum_of_differences r = - 7
        \<and> sint (sum_of_differences r) = - 7
        \<and> average r = - 1
        \<and> sint (average r) = - 1
        \<and> synchronized_master_time r = 99
        \<and> updated_slave_times r = [100, 100, 100, 100, 100, 101])"
proof -
  have ne: "[101, 101, 101, 101, 101, 102 :: time_t] \<noteq> []" by simp
  have len: "length [101, 101, 101, 101, 101, 102 :: time_t] < 2 ^ 31" by simp
  show ?thesis
    using berkeley_sync_computes [OF ne len, of 100 2 of_nat]
    by (auto simp: Let_def c_div_def signed_divide_int_def)
qed

text \<open>
  C5. For every reference reading and every non-empty list of participant readings, the
  corrected reference minus the corrected reading of participant \<open>i\<close> is the reference
  minus the reading of participant \<open>i\<close>. A run of the program is this computation on
  the six readings it draws.
\<close>

theorem berkeley_sync_preserves_offsets:
  assumes "readings \<noteq> []"
  shows "let r = berkeley_sync master_time readings
     in length (updated_slave_times r) = length readings
     \<and> (\<forall>i<length readings.
          synchronized_master_time r - updated_slave_times r ! i =
          master_time - readings ! i)
     \<and> berkeley_main master_time rand =
         berkeley_sync master_time (drawn_readings master_time rand)"
  by (simp add: berkeley_sync_eq berkeley_main_sync Let_def)

text \<open>Offsets 10 and 4: the average is 7, and the corrected readings keep both offsets.\<close>

theorem berkeley_sync_preserves_offsets_witness:
  "[90, 96 :: time_t] \<noteq> []
   \<and> (let r = berkeley_sync 100 [90, 96]
       in length (updated_slave_times r) = 2
        \<and> synchronized_master_time r - updated_slave_times r ! 0 = 10
        \<and> synchronized_master_time r - updated_slave_times r ! 1 = 4)"
proof -
  have ne: "[90, 96 :: time_t] \<noteq> []" by simp
  show ?thesis
    using berkeley_sync_preserves_offsets [OF ne, of 100 of_nat] by (auto simp: Let_def)
qed

text \<open>
  C6, as stated, fails: with every offset equal to 2 the average is 2 and the corrected
  reference is \<open>reference + 2\<close>, but every corrected participant reading is the
  reference itself.
\<close>

theorem constant_offset_counterexample:
  "berkeley_sync 100 [98, 98, 98, 98, 98, 98] =
     \<lparr> initial_slave_times = [98, 98, 98, 98, 98, 98],
       differences = [2, 2, 2, 2, 2, 2],
       sum_of_differences = 12,
       average = 2,
       synchronized_master_time = 102,
       updated_slave_times = [100, 100, 100, 100, 100, 100] \<rparr>
   \<and> (100 :: time_t) \<noteq> 100 + 2"
  by (simp add: berkeley_sync_eq c_div_def signed_divide_int_def)

text \<open>
  C6, amended. For every non-empty participant list in which every offset is the same
  \<open>k\<close>, with \<open>N * k\<close> in the range of \<open>long\<close>, the average is \<open>k\<close>, the corrected
  reference is \<open>reference + k\<close>, and every corrected participant reading is its reading
  plus \<open>k\<close>, which is the reference.
\<close>

theorem constant_offset:
  assumes "readings \<noteq> []" and "length readings < 2 ^ 31"
    and "\<forall>p\<in>set readings. master_time - p = k"
    and "- (2 ^ 63) \<le> int (length readings) * sint k"
    and "int (length readings) * sint k < 2 ^ 63"
  shows "let r = berkeley_sync master_time readings
     in average r = k
     \<and> synchronized_master_time r = master_time + k
     \<and> updated_slave_times r = map (\<lambda>p. p + k) readings
     \<and> (\<forall>t\<in>set (updated_slave_times r). t = master_time)"
proof -
  have "map (\<lambda>p. master_time - p) readings = map (\<lambda>p. k) readings"
    using assms(3) by (intro map_cong) simp_all
  then have "sum_list (map (\<lambda>p. master_time - p) readings) = of_nat (length readings) * k"
    by (simp add: map_replicate_const sum_list_replicate)
  moreover have "c_div (of_nat (length readings) * k) (of_nat (length readings)) = k"
    using assms by (intro c_div_replicated) simp_all
  moreover have "p + k = master_time" if "p \<in> set readings" for p
  proof -
    from that assms(3) have "master_time - p = k" by blast
    then show ?thesis by (simp add: algebra_simps)
  qed
  ultimately show ?thesis
    by (simp add: berkeley_sync_eq Let_def)
qed

theorem constant_offset_witness:
  "[98, 98, 98, 98, 98, 98 :: time_t] \<noteq> []
   \<and> length [98, 98, 98, 98, 98, 98 :: time_t] < 2 ^ 31
   \<and> - (2 ^ 63) \<le> int (length [98, 98, 98, 98, 98, 98 :: time_t]) * sint (2 :: c_long)
   \<and> int (length [98, 98, 98, 98, 98, 98 :: time_t]) * sint (2 :: c_long) < 2 ^ 63
   \<and> (let r = berkeley_sync 100 [98, 98, 98, 98, 98, 98]
       in average r = 2
        \<and> synchronized_master_time r = 102
        \<and> updated_slave_times r = [100, 100, 100, 100, 100, 100])"
proof -
  have h1: "[98, 98, 98, 98, 98, 98 :: time_t] \<noteq> []" by simp
  have h2: "length [98, 98, 98, 98, 98, 98 :: time_t] < 2 ^ 31" by simp
  have h3: "\<forall>p\<in>set [98, 98, 98, 98, 98, 98 :: time_t]. 100 - p = 2" by simp
  have h4: "- (2 ^ 63) \<le> int (length [98, 98, 98, 98, 98, 98 :: time_t]) * sint (2 :: c_long)"
    by simp
  have h5: "int (length [98, 98, 98, 98, 98, 98 :: time_t]) * sint (2 :: c_long) < 2 ^ 63"
    by simp
  show ?thesis
    using h1 h2 h4 h5 constant_offset [OF h1 h2 h3 h4 h5] by (auto simp: Let_def)
qed

text \<open>
  C8, as stated, fails: when \<open>rand()\<close> returns 0, 1, 2, 3, 4, 5 the sixth offset is 0
  and the sixth slave reading is the master reading.
\<close>

theorem master_reading_counterexample:
  "berkeley_main 1000 of_nat =
     \<lparr> initial_slave_times = [995, 996, 997, 998, 999, 1000],
       differences = [5, 4, 3, 2, 1, 0],
       sum_of_differences = 15,
       average = 2,
       synchronized_master_time = 1002,
       updated_slave_times = [997, 998, 999, 1000, 1001, 1002] \<rparr>
   \<and> (1000 :: time_t) \<in> set [995, 996, 997, 998, 999, 1000]"
  by (simp add: berkeley_main_sync drawn_readings_unfold berkeley_sync_eq
        slave_offset_def c_rem_def c_div_def signed_divide_int_def signed_modulo_int_def)

text \<open>
  C8, amended. In every run the participant list has exactly \<open>NUM_SLAVES\<close> readings,
  reading \<open>i\<close> being the master reading plus the offset drawn in iteration \<open>i\<close>; the
  master reading is not appended to the list, and a participant reading has the value of
  the master reading exactly when its offset is 0.
\<close>

theorem slave_readings_drawn:
  "let r = berkeley_main master_time rand
   in length (initial_slave_times r) = NUM_SLAVES
     \<and> (\<forall>i<NUM_SLAVES.
          initial_slave_times r ! i = master_time + scast (slave_offset (rand i))
          \<and> (initial_slave_times r ! i = master_time \<longleftrightarrow> slave_offset (rand i) = 0))"
  by (simp add: berkeley_main_sync berkeley_sync_eq length_drawn_readings
        nth_drawn_readings NUM_SLAVES_def scast_offset_eq_0 Let_def)

theorem slave_readings_drawn_witness:
  "let r = berkeley_main 1000 of_nat
   in length (initial_slave_times r) = NUM_SLAVES
     \<and> initial_slave_times r ! 5 = 1000
     \<and> initial_slave_times r ! 4 \<noteq> 1000"
proof -
  have "(5::nat) < NUM_SLAVES" and "(4::nat) < NUM_SLAVES" by (simp_all add: NUM_SLAVES_def)
  moreover have "slave_offset (of_nat 5) = 0" and "slave_offset (of_nat 4) \<noteq> 0"
    by (simp_all add: slave_offset_def c_rem_def signed_modulo_int_def)
  ultimately show ?thesis
    using slave_readings_drawn [of 1000 of_nat] by (auto simp: scast_offset_eq_0 Let_def)
qed

text \<open>
  C10. In every run, \<open>rand()\<close> returning values from 0 upwards as the C library
  specifies, every offset \<open>(rand() % 11) - 5\<close> lies between \<open>-5\<close> and 5, every slave
  reading differs from the master reading by at most 5, and every difference
  \<open>master_time - slave_time\<close> lies between \<open>-5\<close> and 5.
\<close>

theorem slave_offsets_in_range:
  assumes "\<forall>i<NUM_SLAVES. 0 \<le> sint (rand i)"
  shows "let r = berkeley_main master_time rand
     in (\<forall>i<NUM_SLAVES.
          - 5 \<le> sint (slave_offset (rand i)) \<and> sint (slave_offset (rand i)) \<le> 5
          \<and> - 5 \<le> sint (initial_slave_times r ! i - master_time)
          \<and> sint (initial_slave_times r ! i - master_time) \<le> 5
          \<and> - 5 \<le> sint (differences r ! i) \<and> sint (differences r ! i) \<le> 5)"
proof -
  have "- 5 \<le> sint (slave_offset (rand i)) \<and> sint (slave_offset (rand i)) \<le> 5
      \<and> - 5 \<le> sint (drawn_readings master_time rand ! i - master_time)
      \<and> sint (drawn_readings master_time rand ! i - master_time) \<le> 5
      \<and> - 5 \<le> sint (master_time - drawn_readings master_time rand ! i)
      \<and> sint (master_time - drawn_readings master_time rand ! i) \<le> 5"
    if "i < 6" for i
  proof -
    from that assms have "0 \<le> sint (rand i)" by (simp add: NUM_SLAVES_def)
    then have range: "- 5 \<le> sint (slave_offset (rand i)) \<and> sint (slave_offset (rand i)) \<le> 5"
      by (rule slave_offset_range)
    then have "sint (- (scast (slave_offset (rand i)) :: 64 word)) = - sint (slave_offset (rand i))"
      by (intro sint_minus_scast_offset) simp_all
    with range that show ?thesis
      by (simp add: nth_drawn_readings sint_scast_offset)
  qed
  then show ?thesis
    by (simp add: berkeley_main_sync berkeley_sync_eq NUM_SLAVES_def
          length_drawn_readings Let_def)
qed

theorem slave_offsets_in_range_witness:
  "let r = berkeley_main 1000 of_nat
   in - 5 \<le> sint (slave_offset (of_nat 0)) \<and> sint (slave_offset (of_nat 0)) \<le> 5
     \<and> - 5 \<le> sint (initial_slave_times r ! 0 - 1000)
     \<and> sint (initial_slave_times r ! 0 - 1000) \<le> 5
     \<and> - 5 \<le> sint (differences r ! 0) \<and> sint (differences r ! 0) \<le> 5
     \<and> - 5 \<le> sint (differences r ! 5) \<and> sint (differences r ! 5) \<le> 5"
proof -
  let ?P = "\<lambda>r i. - 5 \<le> sint (slave_offset (of_nat i)) \<and> sint (slave_offset (of_nat i)) \<le> 5
          \<and> - 5 \<le> sint (initial_slave_times r ! i - 1000)
          \<and> sint (initial_slave_times r ! i - 1000) \<le> 5
          \<and> - 5 \<le> sint (differences r ! i) \<and> sint (differences r ! i) \<le> 5"
  have "0 \<le> sint (of_nat i :: c_int)" if "i < NUM_SLAVES" for i
  proof -
    from that have "i < 2 ^ (LENGTH(32) - 1)" by (simp add: NUM_SLAVES_def)
    then have "sint (of_nat i :: c_int) = int i" by (rule sint_of_nat_self)
    then show ?thesis by simp
  qed
  then have h: "\<forall>i<NUM_SLAVES. 0 \<le> sint (of_nat i :: c_int)" by blast
  have all: "\<forall>i<NUM_SLAVES. ?P (berkeley_main 1000 of_nat) i"
    using slave_offsets_in_range [OF h, of 1000] unfolding Let_def .
  have "(0::nat) < NUM_SLAVES" and "(5::nat) < NUM_SLAVES" by (simp_all add: NUM_SLAVES_def)
  with all have "?P (berkeley_main 1000 of_nat) 0" and "?P (berkeley_main 1000 of_nat) 5"
    by blast+
  then show ?thesis unfolding Let_def by blast
qed


section \<open>Properties of the Cristian computation\<close>

text \<open>
  C2. For every tick length of the clock and every triple of timestamps \<open>t0\<close>, \<open>ts\<close>,
  \<open>t1\<close> in whole milliseconds with \<open>t0 \<le> t1\<close> (the round trip within the range of
  the 64-bit tick count), the computation returns \<open>RTT = t1 - t0\<close>, the one-way delay
  is \<open>RTT / 2\<close> truncated, and the synchronized time is \<open>ts\<close> plus the one-way delay.
  For 1000, 1100 and 1200 these are 200, 100 and 1200.
\<close>

theorem cristian_sync_computes:
  assumes "0 < sint ticks_per_ms" and "t0 \<le> t1"
    and "(t1 - t0) * sint ticks_per_ms < 2 ^ 63"
  shows "let r = cristian_sync ticks_per_ms
                   (ms ticks_per_ms t0) (ms ticks_per_ms ts) (ms ticks_per_ms t1)
         in sint (RTT r) = t1 - t0
          \<and> sint (one_way_delay (RTT r)) = (t1 - t0) div 2
          \<and> synchronized_client_time r =
              ms ticks_per_ms ts + one_way_delay (RTT r) * ticks_per_ms
          \<and> synchronized_client_time r = ms ticks_per_ms (ts + (t1 - t0) div 2)"
proof -
  define d where "d = t1 - t0"
  have d0: "0 \<le> d" using assms(2) by (simp add: d_def)
  have hi: "d * sint ticks_per_ms < 2 ^ 63" using assms(3) by (simp add: d_def)
  have lo: "- (2 ^ 63) \<le> d * sint ticks_per_ms"
  proof -
    have "0 \<le> d * sint ticks_per_ms"
      using assms(1) d0 by (intro mult_nonneg_nonneg) simp_all
    then show ?thesis by (rule order_trans [rotated]) simp
  qed
  have d: "sint (word_of_int d :: 64 word) = d"
    using c_div_ticks(2) [OF assms(1) lo hi] .
  have owd: "sint (one_way_delay (word_of_int d)) = d div 2"
    using d0 by (simp add: sint_one_way_delay d)
  have "one_way_delay (word_of_int d) = word_of_int (d div 2)"
  proof (rule signed_word_eqI)
    have "0 \<le> d div 2" and "d div 2 \<le> d"
      using d0 by simp_all
    moreover have "d < 2 ^ 63"
      using d sint_lt [of "word_of_int d :: 64 word"] by simp
    ultimately have "sint (word_of_int (d div 2) :: 64 word) = d div 2"
      by (intro sint_word_of_int_self) simp_all
    with owd show "sint (one_way_delay (word_of_int d)) =
        sint (word_of_int (d div 2) :: 64 word)" by simp
  qed
  then have sync: "ms ticks_per_ms ts + one_way_delay (word_of_int d) * ticks_per_ms =
      ms ticks_per_ms (ts + d div 2)"
    by (simp add: ms_add)
  have r: "RTT (cristian_sync ticks_per_ms (ms ticks_per_ms t0) (ms ticks_per_ms ts)
             (ms ticks_per_ms t1)) = word_of_int d"
    "synchronized_client_time (cristian_sync ticks_per_ms (ms ticks_per_ms t0)
       (ms ticks_per_ms ts) (ms ticks_per_ms t1)) =
     ms ticks_per_ms ts + one_way_delay (word_of_int d) * ticks_per_ms"
    using cristian_sync_ms [of ticks_per_ms t1 t0 "ms ticks_per_ms ts"] assms(1) lo hi
    unfolding d_def by blast+
  show ?thesis
    unfolding Let_def r sync owd d by (simp add: d_def)
qed

theorem cristian_sync_computes_witness:
  "0 < sint (1000000 :: 64 word) \<and> (1000 :: int) \<le> 1200
   \<and> (1200 - 1000) * sint (1000000 :: 64 word) < 2 ^ 63
   \<and> (let r = cristian_sync 1000000 (ms 1000000 1000) (ms 1000000 1100) (ms 1000000 1200)
       in sint (RTT r) = 200
        \<and> sint (one_way_delay (RTT r)) = 100
        \<and> synchronized_client_time r = ms 1000000 1200)"
proof -
  have h1: "0 < sint (1000000 :: 64 word)" by simp
  have h2: "(1000 :: int) \<le> 1200" by simp
  have h3: "(1200 - 1000) * sint (1000000 :: 64 word) < 2 ^ 63" by simp
  let ?r = "cristian_sync 1000000 (ms 1000000 1000) (ms 1000000 1100) (ms 1000000 1200)"
  have "sint (RTT ?r) = 1200 - 1000"
    and "sint (one_way_delay (RTT ?r)) = (1200 - 1000) div 2"
    and "synchronized_client_time ?r = ms 1000000 (1100 + (1200 - 1000) div 2)"
    using cristian_sync_computes [OF h1 h2 h3, of 1100] unfolding Let_def by blast+
  then show ?thesis
    by (simp add: Let_def)
qed

text \<open>
  C4, as stated, fails: with \<open>T1\<close> 200 milliseconds before \<open>T0\<close> the computation
  returns a result, with the negative \<open>RTT\<close>.
\<close>

theorem cristian_sync_backward_counterexample:
  "cristian_sync 1000000 1200000000 1100000000 1000000000 =
     \<lparr> RTT = - 200,
       synchronized_client_time = 1000000000,
       server_time = 1,
       client_actual = 1,
       client_sync = 1 \<rparr>"
  by (simp add: cristian_sync_def one_way_delay_def to_time_t_def c_div_def
        signed_divide_int_def)

text \<open>
  C4, amended. The computation has no failure: for timestamps in whole milliseconds with
  \<open>t1 < t0\<close> it returns the negative \<open>RTT = t1 - t0\<close>, the one-way delay
  \<open>RTT / 2\<close> truncated towards zero, and the synchronized time \<open>ts\<close> plus that delay.
\<close>

theorem cristian_sync_negative_rtt:
  assumes "0 < sint ticks_per_ms" and "t1 < t0"
    and "- (2 ^ 63) \<le> (t1 - t0) * sint ticks_per_ms"
  shows "let r = cristian_sync ticks_per_ms
                   (ms ticks_per_ms t0) (ms ticks_per_ms ts) (ms ticks_per_ms t1)
         in sint (RTT r) = t1 - t0
          \<and> sint (RTT r) < 0
          \<and> sint (one_way_delay (RTT r)) = - ((t0 - t1) div 2)
          \<and> synchronized_client_time r =
              ms ticks_per_ms ts + one_way_delay (RTT r) * ticks_per_ms
          \<and> synchronized_client_time r = ms ticks_per_ms (ts - (t0 - t1) div 2)"
proof -
  define d where "d = t1 - t0"
  have d0: "d < 0" using assms(2) by (simp add: d_def)
  have lo: "- (2 ^ 63) \<le> d * sint ticks_per_ms" using assms(3) by (simp add: d_def)
  have hi: "d * sint ticks_per_ms < 2 ^ 63"
  proof -
    have "d * sint ticks_per_ms \<le> 0"
      using assms(1) d0 by (simp add: mult_le_0_iff)
    then show ?thesis by (rule le_less_trans) simp
  qed
  have d: "sint (word_of_int d :: 64 word) = d"
    using c_div_ticks(2) [OF assms(1) lo hi] .
  have range: "- (2 ^ 63) \<le> d" "d < 2 ^ 63"
    using int_mult_pos_bounds [OF assms(1), of "2 ^ 63" d] lo hi by simp_all
  have owd: "sint (one_way_delay (word_of_int d)) = - ((- d) div 2)"
    using d0 by (simp add: sint_one_way_delay d)
  have "one_way_delay (word_of_int d) = word_of_int (- ((- d) div 2))"
    using one_way_delay_of_int [OF range] d0 by simp
  then have sync: "ms ticks_per_ms ts + one_way_delay (word_of_int d) * ticks_per_ms =
      ms ticks_per_ms (ts + (- ((- d) div 2)))"
    by (simp only: ms_add)
  have r: "RTT (cristian_sync ticks_per_ms (ms ticks_per_ms t0) (ms ticks_per_ms ts)
             (ms ticks_per_ms t1)) = word_of_int d"
    "synchronized_client_time (cristian_sync ticks_per_ms (ms ticks_per_ms t0)
       (ms ticks_per_ms ts) (ms ticks_per_ms t1)) =
     ms ticks_per_ms ts + one_way_delay (word_of_int d) * ticks_per_ms"
    using cristian_sync_ms [of ticks_per_ms t1 t0 "ms ticks_per_ms ts"] assms(1) lo hi
    unfolding d_def by blast+
  show ?thesis
    unfolding Let_def r sync owd d using d0 by (simp add: d_def)
qed

theorem cristian_sync_negative_rtt_witness:
  "0 < sint (1000000 :: 64 word) \<and> (1000 :: int) < 1201
   \<and> - (2 ^ 63) \<le> (1000 - 1201) * sint (1000000 :: 64 word)
   \<and> (let r = cristian_sync 1000000 (ms 1000000 1201) (ms 1000000 1100) (ms 1000000 1000)
       in sint (RTT r) = - 201
        \<and> sint (one_way_delay (RTT r)) = - 100
        \<and> synchronized_client_time r = ms 1000000 1000)"
proof -
  have h1: "0 < sint (1000000 :: 64 word)" by simp
  have h2: "(1000 :: int) < 1201" by simp
  have h3: "- (2 ^ 63) \<le> (1000 - 1201) * sint (1000000 :: 64 word)" by simp
  let ?r = "cristian_sync 1000000 (ms 1000000 1201) (ms 1000000 1100) (ms 1000000 1000)"
  have "sint (RTT ?r) = 1000 - 1201"
    and "sint (one_way_delay (RTT ?r)) = - ((1201 - 1000) div 2)"
    and "synchronized_client_time ?r = ms 1000000 (1100 - (1201 - 1000) div 2)"
    using cristian_sync_negative_rtt [OF h1 h2 h3, of 1100] unfolding Let_def by blast+
  then show ?thesis
    by (simp add: Let_def)
qed

text \<open>
  C7. The one-way delay is \<open>RTT / 2\<close> truncated towards zero: for an odd \<open>RTT\<close>
  twice the delay is \<open>RTT\<close> less its sign, so the half is dropped and never rounded up
  in magnitude; \<open>RTT = 201\<close> gives 100; and the synchronized time is the server time
  plus the truncated delay.
\<close>

theorem one_way_delay_truncates:
  "sint (one_way_delay rtt) =
     (if 0 \<le> sint rtt then sint rtt div 2 else - ((- sint rtt) div 2))
   \<and> (odd (sint rtt) \<longrightarrow> 2 * sint (one_way_delay rtt) = sint rtt - sgn (sint rtt))
   \<and> one_way_delay 201 = 100
   \<and> synchronized_client_time (cristian_sync ticks_per_ms T0 T_server T1) =
       T_server + one_way_delay (RTT (cristian_sync ticks_per_ms T0 T_server T1)) * ticks_per_ms
   \<and> (0 < sint ticks_per_ms \<and> 201 * sint ticks_per_ms < 2 ^ 63 \<longrightarrow>
        RTT (cristian_sync ticks_per_ms T0 T_server (T0 + 201 * ticks_per_ms)) = 201
        \<and> synchronized_client_time
             (cristian_sync ticks_per_ms T0 T_server (T0 + 201 * ticks_per_ms)) =
           T_server + 100 * ticks_per_ms)"
proof -
  have a: "sint (one_way_delay rtt) =
     (if 0 \<le> sint rtt then sint rtt div 2 else - ((- sint rtt) div 2))"
    by (rule sint_one_way_delay)
  have b: "2 * sint (one_way_delay rtt) = sint rtt - sgn (sint rtt)" if "odd (sint rtt)"
  proof (cases "0 \<le> sint rtt")
    case True
    with that have "0 < sint rtt" by (cases "sint rtt = 0") simp_all
    with that show ?thesis unfolding a by (simp add: sgn_if) presburger
  next
    case False
    with that show ?thesis unfolding a by (simp add: sgn_if) presburger
  qed
  have c: "one_way_delay 201 = 100"
    by (simp add: one_way_delay_def c_div_def signed_divide_int_def)
  have d: "synchronized_client_time (cristian_sync ticks_per_ms T0 T_server T1) =
       T_server + one_way_delay (RTT (cristian_sync ticks_per_ms T0 T_server T1)) * ticks_per_ms"
    by (simp add: cristian_sync_def Let_def)
  have e: "RTT (cristian_sync ticks_per_ms T0 T_server (T0 + 201 * ticks_per_ms)) = 201
        \<and> synchronized_client_time
             (cristian_sync ticks_per_ms T0 T_server (T0 + 201 * ticks_per_ms)) =
           T_server + 100 * ticks_per_ms"
    if "0 < sint ticks_per_ms" and "201 * sint ticks_per_ms < 2 ^ 63"
  proof -
    have "- (2 ^ 63) \<le> 201 * sint ticks_per_ms"
      using that(1) by simp
    then have "c_div (word_of_int 201 * ticks_per_ms) ticks_per_ms = word_of_int 201"
      using that by (intro c_div_ticks(1)) simp_all
    then have "c_div (201 * ticks_per_ms) ticks_per_ms = 201" by simp
    then show ?thesis
      by (simp add: cristian_sync_def Let_def c)
  qed
  from a b c d e show ?thesis by blast
qed

theorem one_way_delay_truncates_witness:
  "odd (sint (201 :: c_long)) \<and> sint (one_way_delay 201) = 100
   \<and> odd (sint (- 201 :: c_long)) \<and> sint (one_way_delay (- 201)) = - 100
   \<and> 0 < sint (1000000 :: 64 word) \<and> 201 * sint (1000000 :: 64 word) < 2 ^ 63
   \<and> RTT (cristian_sync 1000000 5000000 7000000 (5000000 + 201 * 1000000)) = 201
   \<and> synchronized_client_time
        (cristian_sync 1000000 5000000 7000000 (5000000 + 201 * 1000000)) = 107000000"
  using one_way_delay_truncates [of 201 1000000 5000000 7000000 0]
        one_way_delay_truncates [of "- 201" 1000000 5000000 7000000 0]
  by simp

end
